theory Spec2Isabelle
  imports Main
begin

section \<open>Data model of the read operation (src/operations/read.ts)\<close>

text \<open>
  The types that read.ts imports (\<open>../types\<close>, \<open>../schema/types\<close>,
  \<open>../language/ast\<close>, \<open>../Cache\<close>) are not under src/; they are written down here
  from section 3 of the spec and from the way read.ts uses them.

  Modelled from the spec: raw values as they are stored in an entity or handed to
  the traversal.  \<open>VRef k\<close> is a Reference marker \<open>{___ref: k}\<close>.  \<open>VObj fs es is\<close> is an object
  with meta data: \<open>fs\<close> are its own data fields in key order, \<open>es\<close> is its
  \<open>___expiresAt\<close> table and \<open>is\<close> its \<open>___invalidated\<close> table.  \<open>VPlain\<close> is an
  object without meta data.  Numbers are integers (timestamps, counters).
\<close>

datatype "value" =
    VUndefined
  | VNull
  | VBool bool
  | VNum int
  | VStr string
  | VRef string
  | VArr "value list"
  | VObj "(string \<times> value) list" "(string \<times> int) list" "(string \<times> bool) list"
  | VPlain "(string \<times> value) list"

text \<open>Modelled from the spec: the options object of \<open>cache.identify\<close>, a type name
  and an id (\<open>VUndefined\<close> when no id is given).\<close>

record identifyOptions =
  otype :: string
  oid :: "value"

text \<open>
  The context handed to a computed \<open>read\<close> function (ObjectFieldReadContext): its only
  member is \<open>toReference\<close>.
\<close>

record objectFieldReadContext =
  toReference :: "identifyOptions \<Rightarrow> value"

text \<open>
  Modelled from the spec: ValueType, a tagged variant over object, array, boolean,
  number, string, union and non-nullable wrapper; object, array and scalar types may
  carry a name.  An object type maps field names to field configurations; a field
  configuration has an optional nested type and an optional computed \<open>read\<close> function
  (its \<open>write\<close> function plays no part in reading).
\<close>

datatype valueType =
    ObjectType "string option" "(string \<times> fieldConfig) list"
  | ArrayType "string option" "valueType option"
  | BooleanType "string option"
  | NumberType "string option"
  | StringType "string option"
  | UnionType "string option" "valueType list"
  | NonNullableType valueType
and fieldConfig =
    FieldConfig "valueType option" "(value \<Rightarrow> objectFieldReadContext \<Rightarrow> value) option"

fun ftype :: "fieldConfig \<Rightarrow> valueType option" where
  "ftype (FieldConfig t r) = t"

fun fread :: "fieldConfig \<Rightarrow> (value \<Rightarrow> objectFieldReadContext \<Rightarrow> value) option" where
  "fread (FieldConfig t r) = r"

text \<open>Modelled from the spec: the selector AST.  A document holds a selection set, a
  selection set holds fields, a field has a name, an optional alias and an optional
  nested selection set.\<close>

datatype selectionSetNode = SelectionSetNode "fieldNode list"
and fieldNode = FieldNode string "string option" "selectionSetNode option"

fun falias :: "fieldNode \<Rightarrow> string option" where
  "falias (FieldNode n a s) = a"

fun selectionSet :: "fieldNode \<Rightarrow> selectionSetNode option" where
  "selectionSet (FieldNode n a s) = s"

datatype documentNode = DocumentNode selectionSetNode

text \<open>Modelled from the spec: a stored entity, with the fields read.ts reads: \<open>id\<close>,
  \<open>value\<close>, \<open>expiresAt\<close> and \<open>invalidated\<close>.\<close>

record entity =
  eid :: string
  evalue :: "value"
  eexpiresAt :: int
  einvalidated :: bool

text \<open>
  Modelled from the spec: the cache as the read operation sees it, the confirmed and
  the optimistic store, addressed by the same keys, and \<open>identify\<close>.
  \<open>get c k opt\<close> is \<open>cache.get(k, opt)\<close>.
\<close>

record cache =
  entities :: "string \<rightharpoonup> entity"
  optimisticEntities :: "string \<rightharpoonup> entity"
  identify :: "identifyOptions \<Rightarrow> string option"

definition get :: "cache \<Rightarrow> string \<Rightarrow> bool \<Rightarrow> entity option" where
  "get c k opt = (if opt then optimisticEntities c k else entities c k)"

text \<open>Diagnostic paths: field names and array indices.\<close>

datatype seg = SName string | SIndex nat

type_synonym path = "seg list"

text \<open>
  Results.  Result objects are JavaScript objects with identity: the traversal
  creates them empty, may register them in \<open>fullEntityResults\<close> and fills them in
  afterwards, so a result can contain itself.  They live in a heap of objects,
  addressed by their index; \<open>RObj a\<close> is the object at address \<open>a\<close>.  Arrays of
  results are never shared and are kept by value.  \<open>RRaw v\<close> is a raw value
  returned as it is.  \<open>RProto k\<close> is the member \<open>k\<close> of \<open>Object.prototype\<close>, which
  a lookup in \<open>fullEntityResults\<close> can return.
\<close>

datatype rvalue = RRaw "value" | RObj nat | RArr "rvalue list" | RProto string

type_synonym plainObject = "(string \<times> rvalue) list"

text \<open>Where a checked \<open>expiresAt\<close> or \<open>invalidated\<close> value came from.\<close>

datatype origin = OfEntity string | OfField path

text \<open>
  ReadContext.  \<open>expiresAt\<close> is a JavaScript number that the code may overwrite with
  \<open>undefined\<close> (\<open>None\<close>).  \<open>fullEntityResults\<close> holds the own properties of the
  object that read.ts creates as \<open>{}\<close>: the address of the result object registered
  under each key.  \<open>heap\<close> is the memory holding the result objects.
  \<open>checkedExpiresAt\<close> and \<open>checkedInvalidated\<close> are not in the source: they record
  every argument \<open>checkExpiresAt\<close> and \<open>checkInvalidated\<close> were called with and
  nothing reads them.
\<close>

record readContext =
  cache :: cache
  expiresAt :: "int option"
  invalidFields :: "(path \<times> value) list"
  invalidated :: bool
  missingFields :: "path list"
  fullEntityResults :: "string \<rightharpoonup> nat"
  optimistic :: bool
  path :: path
  selector :: "documentNode option"
  heap :: "plainObject list"
  checkedExpiresAt :: "(origin \<times> int option) list"
  checkedInvalidated :: "(origin \<times> bool) list"

record readOptions =
  optId :: "value"
  optSelect :: "documentNode option"

text \<open>ReadResult; \<open>rheap\<close> is the memory that holds the result objects \<open>rdata\<close> refers to.\<close>

record readResult =
  rdata :: "rvalue option"
  rentityID :: "string option"
  rexpiresAt :: "int option"
  rinvalidFields :: "(path \<times> value) list option"
  rinvalidated :: bool
  rmissingFields :: "path list option"
  rselector :: "documentNode option"
  rstale :: bool
  rheap :: "plainObject list"


section \<open>Helpers that read.ts imports\<close>

text \<open>
  The schema and selector helpers (\<open>schema/utils\<close>, \<open>schema/types\<close>,
  \<open>operations/shared\<close>) are not under src/.  They are parameters of the traversal:
  every theorem below that quantifies over \<open>D\<close> holds whatever they compute.
  \<open>resolveWrappedType\<close> may yield no type.
\<close>

record deps =
  isValid :: "valueType \<Rightarrow> value \<Rightarrow> bool"
  resolveWrappedType :: "valueType \<Rightarrow> value \<Rightarrow> valueType option"
  getSelectionSet :: "documentNode option \<Rightarrow> valueType \<Rightarrow> selectionSetNode option"
  getSelectionFields ::
    "documentNode option \<Rightarrow> selectionSetNode option \<Rightarrow> valueType option \<Rightarrow> value
      \<Rightarrow> (string \<times> fieldNode) list"
  maybeGetfieldType :: "valueType option \<Rightarrow> string \<Rightarrow> fieldConfig option"

text \<open>Modelled from the spec: \<open>isReference\<close> (utils/cache), true of a Reference marker.\<close>

fun isReference :: "value \<Rightarrow> bool" where
  "isReference (VRef k) = True"
| "isReference v = False"

text \<open>\<open>data.___ref\<close>, read only where \<open>isReference data\<close> holds.\<close>

fun refKey :: "value \<Rightarrow> string" where
  "refKey (VRef k) = k"
| "refKey v = []"

text \<open>Modelled from the spec: \<open>createReference\<close> (utils/cache) builds the marker.\<close>

definition createReference :: "string \<Rightarrow> value" where
  "createReference k = VRef k"

text \<open>Modelled from the spec: \<open>isObjectWithMeta\<close> (utils/cache), an object that carries
  the \<open>___expiresAt\<close> and \<open>___invalidated\<close> tables.\<close>

fun isObjectWithMeta :: "value \<Rightarrow> bool" where
  "isObjectWithMeta (VObj fs es is) = True"
| "isObjectWithMeta v = False"

fun isArray :: "value \<Rightarrow> bool" where
  "isArray (VArr xs) = True"
| "isArray v = False"

fun ownFields :: "value \<Rightarrow> (string \<times> value) list" where
  "ownFields (VObj fs es is) = fs"
| "ownFields (VPlain fs) = fs"
| "ownFields v = []"

fun metaExpiresAt :: "value \<Rightarrow> (string \<times> int) list" where
  "metaExpiresAt (VObj fs es is) = es"
| "metaExpiresAt v = []"

fun metaInvalidated :: "value \<Rightarrow> (string \<times> bool) list" where
  "metaInvalidated (VObj fs es is) = is"
| "metaInvalidated v = []"

fun elements :: "value \<Rightarrow> value list" where
  "elements (VArr xs) = xs"
| "elements v = []"

text \<open>Modelled from the spec: \<open>hasOwn\<close> (utils/data), the object has the own property.\<close>

definition hasOwn :: "value \<Rightarrow> string \<Rightarrow> bool" where
  "hasOwn data fieldName = (map_of (ownFields data) fieldName \<noteq> None)"

text \<open>\<open>data[fieldName]\<close>: the value of the property, \<open>undefined\<close> when there is none.\<close>

definition getField :: "value \<Rightarrow> string \<Rightarrow> value" where
  "getField data fieldName =
     (case map_of (ownFields data) fieldName of None \<Rightarrow> VUndefined | Some v \<Rightarrow> v)"

text \<open>\<open>isArrayType(type) ? type.ofType : undefined\<close>\<close>

fun arrayOfType :: "valueType option \<Rightarrow> valueType option" where
  "arrayOfType (Some (ArrayType n t)) = t"
| "arrayOfType t = None"

fun typeName :: "valueType \<Rightarrow> string option" where
  "typeName (ObjectType n fs) = n"
| "typeName (ArrayType n t) = n"
| "typeName (BooleanType n) = n"
| "typeName (NumberType n) = n"
| "typeName (StringType n) = n"
| "typeName (UnionType n ts) = n"
| "typeName (NonNullableType t) = None"

text \<open>
  Modelled from the spec: \<open>resolveEntity\<close> (utils/cache) is not under src/.  The spec
  says: resolve the root entity via \<open>identify\<close> + \<open>get\<close>; a type without a name cannot
  be identified.
\<close>

definition resolveEntity :: "cache \<Rightarrow> valueType \<Rightarrow> value \<Rightarrow> bool \<Rightarrow> entity option" where
  "resolveEntity c t i opt =
     (case typeName t of
        None \<Rightarrow> None
      | Some n \<Rightarrow>
          (case identify c \<lparr>otype = n, oid = i\<rparr> of
             None \<Rightarrow> None
           | Some k \<Rightarrow> get c k opt))"

section \<open>The context updates of read.ts\<close>

definition addMissingField :: "readContext \<Rightarrow> readContext" where
  "addMissingField ctx = ctx\<lparr>missingFields := missingFields ctx @ [path ctx]\<rparr>"

definition addInvalidField :: "readContext \<Rightarrow> value \<Rightarrow> readContext" where
  "addInvalidField ctx v = ctx\<lparr>invalidFields := invalidFields ctx @ [(path ctx, v)]\<rparr>"

definition checkInvalidated :: "readContext \<Rightarrow> bool \<Rightarrow> origin \<Rightarrow> readContext" where
  "checkInvalidated ctx flag og =
     (let ctx' = ctx\<lparr>checkedInvalidated := checkedInvalidated ctx @ [(og, flag)]\<rparr>
      in if flag then ctx'\<lparr>invalidated := True\<rparr> else ctx')"

text \<open>JavaScript's \<open><\<close> and \<open><=\<close> on numbers that may be \<open>undefined\<close>: a comparison with
  \<open>undefined\<close> is false.\<close>

fun jsLess :: "int option \<Rightarrow> int option \<Rightarrow> bool" where
  "jsLess (Some a) (Some b) = (a < b)"
| "jsLess a b = False"

fun jsLessEq :: "int option \<Rightarrow> int option \<Rightarrow> bool" where
  "jsLessEq (Some a) (Some b) = (a \<le> b)"
| "jsLessEq a b = False"

definition checkExpiresAt :: "readContext \<Rightarrow> int option \<Rightarrow> origin \<Rightarrow> readContext" where
  "checkExpiresAt ctx e og =
     (let ctx' = ctx\<lparr>checkedExpiresAt := checkedExpiresAt ctx @ [(og, e)]\<rparr>
      in if e \<noteq> Some (- 1) \<and> (expiresAt ctx' = Some (- 1) \<or> jsLess e (expiresAt ctx'))
         then ctx'\<lparr>expiresAt := e\<rparr> else ctx')"

definition pushPath :: "readContext \<Rightarrow> seg \<Rightarrow> readContext" where
  "pushPath ctx s = ctx\<lparr>path := path ctx @ [s]\<rparr>"

definition popPath :: "readContext \<Rightarrow> readContext" where
  "popPath ctx = ctx\<lparr>path := butlast (path ctx)\<rparr>"

text \<open>
  The names of the members of \<open>Object.prototype\<close>, which every object created as
  \<open>{}\<close> inherits: the standard ones and the legacy accessors.
\<close>

definition objectPrototypeKeys :: "string list" where
  "objectPrototypeKeys =
     [''constructor'', ''hasOwnProperty'', ''isPrototypeOf'', ''propertyIsEnumerable'',
      ''toLocaleString'', ''toString'', ''valueOf'', ''__proto__'', ''__defineGetter__'',
      ''__defineSetter__'', ''__lookupGetter__'', ''__lookupSetter__'']"

text \<open>
  \<open>ctx.fullEntityResults[k]\<close> (read.ts 118-119): the result object registered under
  \<open>k\<close>; without one, the inherited member when \<open>k\<close> names a member of
  \<open>Object.prototype\<close> (a function or an object, so truthy); otherwise \<open>undefined\<close>
  (\<open>None\<close>).  The assignment at read.ts 151 is only reached after this lookup gave
  \<open>undefined\<close> for the same key, so it always creates an own property.
\<close>

definition fullEntityResult :: "readContext \<Rightarrow> string \<Rightarrow> rvalue option" where
  "fullEntityResult ctx k =
     (case fullEntityResults ctx k of
        Some a \<Rightarrow> Some (RObj a)
      | None \<Rightarrow> if k \<in> set objectPrototypeKeys then Some (RProto k) else None)"

text \<open>\<open>const result = {}\<close>: a new empty object at the next free address.\<close>

definition newObject :: "readContext \<Rightarrow> nat \<times> readContext" where
  "newObject ctx = (length (heap ctx), ctx\<lparr>heap := heap ctx @ [[]]\<rparr>)"

text \<open>\<open>result[alias] = v\<close>: an existing key keeps its place, a new key goes last.\<close>

fun assign :: "plainObject \<Rightarrow> string \<Rightarrow> rvalue \<Rightarrow> plainObject" where
  "assign [] k v = [(k, v)]"
| "assign ((k', v') # kvs) k v = (if k' = k then (k, v) # kvs else (k', v') # assign kvs k v)"

definition setField :: "readContext \<Rightarrow> nat \<Rightarrow> string \<Rightarrow> rvalue \<Rightarrow> readContext" where
  "setField ctx a k v =
     (if a < length (heap ctx) then ctx\<lparr>heap := (heap ctx)[a := assign (heap ctx ! a) k v]\<rparr>
      else ctx)"

text \<open>The context given to a computed \<open>read\<close> function (read.ts lines 172-177).\<close>

definition fieldReadCtx :: "readContext \<Rightarrow> objectFieldReadContext" where
  "fieldReadCtx ctx =
     \<lparr>toReference = (\<lambda>options.
        case identify (cache ctx) options of
          None \<Rightarrow> VUndefined
        | Some entityID \<Rightarrow> if entityID = [] then VUndefined else createReference entityID)\<rparr>"

text \<open>
  The value of a selected field (read.ts lines 166-183): \<open>Some v\<close> when
  \<open>fieldValueFound\<close> is set, with \<open>v\<close> the \<open>fieldValue\<close>; \<open>None\<close> otherwise.
\<close>

definition fieldValue ::
  "readContext \<Rightarrow> fieldConfig option \<Rightarrow> value \<Rightarrow> string \<Rightarrow> value option" where
  "fieldValue ctx typeField data fieldName =
     (case Option.bind typeField fread of
        Some rd \<Rightarrow> Some (rd data (fieldReadCtx ctx))
      | None \<Rightarrow> if hasOwn data fieldName then Some (getField data fieldName) else None)"


text \<open>The schema check at the head of \<open>traverseValue\<close> (read.ts lines 139-145).\<close>

definition checkType ::
  "deps \<Rightarrow> readContext \<Rightarrow> valueType option \<Rightarrow> value \<Rightarrow> valueType option \<times> readContext" where
  "checkType D ctx ty data =
     (case ty of
        None \<Rightarrow> (None, ctx)
      | Some t \<Rightarrow>
          if isValid D t data then (resolveWrappedType D t data, ctx)
          else (Some t, addInvalidField ctx data))"

text \<open>\<open>data.___expiresAt[fieldName]\<close>; \<open>None\<close> is \<open>undefined\<close>.\<close>

definition fieldExpiresAt :: "value \<Rightarrow> string \<Rightarrow> int option" where
  "fieldExpiresAt data fieldName = map_of (metaExpiresAt data) fieldName"

text \<open>\<open>data.___invalidated[fieldName]\<close> as \<open>checkInvalidated\<close> tests it: \<open>undefined\<close> is
  falsy.\<close>

definition fieldInvalidated :: "value \<Rightarrow> string \<Rightarrow> bool" where
  "fieldInvalidated data fieldName =
     (case map_of (metaInvalidated data) fieldName of None \<Rightarrow> False | Some b \<Rightarrow> b)"

section \<open>The traversal\<close>

text \<open>
  \<open>traverseEntity\<close> and \<open>traverseValue\<close> call each other and need not return: the
  store may hold a cycle.  The first argument after \<open>D\<close> bounds the depth of nested
  calls; \<open>None\<close> means that the bound was reached.  \<open>traverseFields\<close> is the loop
  over \<open>Object.keys(selectionFields)\<close> filling the result object at address \<open>a\<close>,
  \<open>traverseElements\<close> the loop over the array with the index \<open>i\<close>.
\<close>

function
  traverseEntity ::
    "deps \<Rightarrow> nat \<Rightarrow> readContext \<Rightarrow> string \<Rightarrow> valueType option \<Rightarrow> selectionSetNode option
      \<Rightarrow> (rvalue \<times> readContext) option"
and traverseValue ::
    "deps \<Rightarrow> nat \<Rightarrow> readContext \<Rightarrow> selectionSetNode option \<Rightarrow> valueType option
      \<Rightarrow> entity option \<Rightarrow> value \<Rightarrow> (rvalue \<times> readContext) option"
and traverseFields ::
    "deps \<Rightarrow> nat \<Rightarrow> readContext \<Rightarrow> nat \<Rightarrow> valueType option \<Rightarrow> value
      \<Rightarrow> (string \<times> fieldNode) list \<Rightarrow> readContext option"
and traverseElements ::
    "deps \<Rightarrow> nat \<Rightarrow> readContext \<Rightarrow> selectionSetNode option \<Rightarrow> valueType option \<Rightarrow> nat
      \<Rightarrow> value list \<Rightarrow> (rvalue list \<times> readContext) option"
where
  "traverseEntity D 0 ctx entityID ty sel = None"
| "traverseEntity D (Suc n) ctx entityID ty sel =
     (case get (cache ctx) entityID (optimistic ctx) of
        None \<Rightarrow> Some (RRaw VUndefined, addMissingField ctx)
      | Some e \<Rightarrow>
          (case (if sel = None then fullEntityResult ctx (eid e) else None) of
             Some r \<Rightarrow> Some (r, ctx)
           | None \<Rightarrow>
               traverseValue D n
                 (checkInvalidated
                    (checkExpiresAt ctx (Some (eexpiresAt e)) (OfEntity (eid e)))
                    (einvalidated e) (OfEntity (eid e)))
                 sel ty (Some e) (evalue e)))"
| "traverseValue D 0 ctx sel ty ent data = None"
| "traverseValue D (Suc n) ctx sel ty ent data =
     (if isReference data then traverseEntity D n ctx (refKey data) ty sel
      else
          (case checkType D ctx ty data of (ty', ctx1) \<Rightarrow>
             if isObjectWithMeta data then
               (case newObject ctx1 of (a, ctx2) \<Rightarrow>
                  (case traverseFields D n
                          (case ent of
                             Some e \<Rightarrow>
                               if sel = None
                               then ctx2\<lparr>fullEntityResults := (fullEntityResults ctx2)(eid e \<mapsto> a)\<rparr>
                               else ctx2
                           | None \<Rightarrow> ctx2)
                          a ty' data (getSelectionFields D (selector ctx2) sel ty' data) of
                     None \<Rightarrow> None
                   | Some ctx3 \<Rightarrow> Some (RObj a, ctx3)))
             else if isArray data then
               (case traverseElements D n ctx1 sel (arrayOfType ty') 0 (elements data) of
                  None \<Rightarrow> None
                | Some (rs, ctx2) \<Rightarrow> Some (RArr rs, ctx2))
             else Some (RRaw data, ctx1)))"
| "traverseFields D n ctx a ty data [] = Some ctx"
| "traverseFields D n ctx a ty data ((fieldName, selectionField) # rest) =
     (let ctx1 = pushPath ctx (SName fieldName);
          typeField = maybeGetfieldType D ty fieldName
      in case fieldValue ctx1 typeField data fieldName of
           Some v \<Rightarrow>
             (case traverseValue D n
                     (checkInvalidated
                        (checkExpiresAt ctx1 (fieldExpiresAt data fieldName) (OfField (path ctx1)))
                        (fieldInvalidated data fieldName) (OfField (path ctx1)))
                     (selectionSet selectionField) (Option.bind typeField ftype) None v of
                None \<Rightarrow> None
              | Some (r, ctx2) \<Rightarrow>
                  traverseFields D n
                    (popPath
                       (setField ctx2 a
                          (case falias selectionField of Some al \<Rightarrow> al | None \<Rightarrow> fieldName) r))
                    a ty data rest)
         | None \<Rightarrow> traverseFields D n (popPath (addMissingField ctx1)) a ty data rest)"
| "traverseElements D n ctx sel ofType i [] = Some ([], ctx)"
| "traverseElements D n ctx sel ofType i (x # xs) =
     (case traverseValue D n (pushPath ctx (SIndex i)) sel ofType None x of
        None \<Rightarrow> None
      | Some (r, ctx1) \<Rightarrow>
          (case traverseElements D n (popPath ctx1) sel ofType (Suc i) xs of
             None \<Rightarrow> None
           | Some (rs, ctx2) \<Rightarrow> Some (r # rs, ctx2)))"
  by pat_completeness auto
termination
  by (relation "measures [(\<lambda>x. case x of
        Inl (Inl (D, n, r)) \<Rightarrow> 2 * n
      | Inl (Inr (D, n, r)) \<Rightarrow> 2 * n
      | Inr (Inl (D, n, ctx, a, ty, data, fs)) \<Rightarrow> 2 * n + 1
      | Inr (Inr (D, n, ctx, sel, t, i, xs)) \<Rightarrow> 2 * n + 1), (\<lambda>x. case x of
        Inl (Inl (D, n, r)) \<Rightarrow> 0
      | Inl (Inr (D, n, r)) \<Rightarrow> 0
      | Inr (Inl (D, n, ctx, a, ty, data, fs)) \<Rightarrow> length fs
      | Inr (Inr (D, n, ctx, sel, t, i, xs)) \<Rightarrow> length xs)]") auto


section \<open>executeRead\<close>

definition emptyResult :: "documentNode option \<Rightarrow> readResult" where
  "emptyResult sel =
     \<lparr>rdata = None, rentityID = None, rexpiresAt = Some (- 1), rinvalidFields = None,
      rinvalidated = False, rmissingFields = None, rselector = sel, rstale = True,
      rheap = []\<rparr>"

text \<open>
  The context that \<open>executeRead\<close> starts with (read.ts 71-81).  \<open>fullEntityResults: {}\<close>
  has no own property; what a lookup finds in it, inherited members included, is
  \<open>fullEntityResult\<close>.
\<close>

definition initialContext :: "cache \<Rightarrow> bool \<Rightarrow> documentNode option \<Rightarrow> readContext" where
  "initialContext c opt sel =
     \<lparr>cache = c, expiresAt = Some (- 1), invalidFields = [], invalidated = False,
      missingFields = [], fullEntityResults = Map.empty, optimistic = opt, path = [],
      selector = sel, heap = [], checkedExpiresAt = [], checkedInvalidated = []\<rparr>"

text \<open>
  \<open>executeRead\<close> with the depth bound \<open>n\<close> of the traversal and the value \<open>now\<close> of
  \<open>Date.now()\<close>.  It returns the result and the cache as it is after the call.
\<close>

definition executeRead ::
  "deps \<Rightarrow> nat \<Rightarrow> int \<Rightarrow> cache \<Rightarrow> valueType \<Rightarrow> bool \<Rightarrow> readOptions
    \<Rightarrow> (readResult \<times> cache) option" where
  "executeRead D n now c ty opt options =
     (case resolveEntity c ty (optId options) opt of
        None \<Rightarrow> Some (emptyResult (optSelect options), c)
      | Some e \<Rightarrow>
          (case traverseEntity D n (initialContext c opt (optSelect options)) (eid e) (Some ty)
                  (getSelectionSet D (optSelect options) ty) of
             None \<Rightarrow> None
           | Some (d, ctx) \<Rightarrow>
               Some ((emptyResult (optSelect options))
                       \<lparr>rdata := Some d,
                        rentityID := Some (eid e),
                        rinvalidated := invalidated ctx,
                        rexpiresAt := expiresAt ctx,
                        rmissingFields :=
                          (if missingFields ctx \<noteq> [] then Some (missingFields ctx) else None),
                        rinvalidFields :=
                          (if invalidFields ctx \<noteq> [] then Some (invalidFields ctx) else None),
                        rstale :=
                          (invalidated ctx \<or>
                           (expiresAt ctx \<noteq> Some (- 1) \<and> jsLessEq (expiresAt ctx) (Some now))),
                        rheap := heap ctx\<rparr>,
                     cache ctx)))"

section \<open>What a read visits, in the words of the spec\<close>






section \<open>A model of the imported schema and selector helpers\<close>

text \<open>
  Modelled from the spec: \<open>isValid\<close>, \<open>resolveWrappedType\<close> (schema),
  \<open>maybeGetfieldType\<close> (schema/utils), \<open>getSelectionSet\<close> and \<open>getSelectionFields\<close>
  (operations/shared) are not under src/.  The definitions below follow sections 4.1,
  4.2 and 4.5 of the spec: a value is checked against the shape of its type, declared
  fields are checked when present, null and undefined pass unless the type is
  non-nullable, a Reference passes; a union resolves to its first matching member; no
  selection set selects every field present on the value, and \<open>*\<close> adds every field
  present on the value to the explicitly listed ones.  They serve as the concrete
  helpers of the examples; the general theorems do not use them.
\<close>

fun isNullish :: "value \<Rightarrow> bool" where
  "isNullish VUndefined = True"
| "isNullish VNull = True"
| "isNullish v = False"

fun specIsValid :: "valueType \<Rightarrow> value \<Rightarrow> bool"
and specIsValidFields :: "(string \<times> fieldConfig) list \<Rightarrow> (string \<times> value) list \<Rightarrow> bool"
where
  "specIsValid (NonNullableType t) v = (\<not> isNullish v \<and> specIsValid t v)"
| "specIsValid (UnionType n ts) v = (isNullish v \<or> isReference v \<or> (\<exists>t \<in> set ts. specIsValid t v))"
| "specIsValid (BooleanType n) v = (isNullish v \<or> isReference v \<or> (case v of VBool b \<Rightarrow> True | _ \<Rightarrow> False))"
| "specIsValid (NumberType n) v = (isNullish v \<or> isReference v \<or> (case v of VNum b \<Rightarrow> True | _ \<Rightarrow> False))"
| "specIsValid (StringType n) v = (isNullish v \<or> isReference v \<or> (case v of VStr b \<Rightarrow> True | _ \<Rightarrow> False))"
| "specIsValid (ArrayType n t) v =
     (isNullish v \<or> isReference v \<or>
      (case v of
         VArr xs \<Rightarrow> (case t of None \<Rightarrow> True | Some t' \<Rightarrow> (\<forall>x \<in> set xs. specIsValid t' x))
       | _ \<Rightarrow> False))"
| "specIsValid (ObjectType n fs) v =
     (isNullish v \<or> isReference v \<or>
      (case v of VObj kvs es is \<Rightarrow> specIsValidFields fs kvs | _ \<Rightarrow> False))"
| "specIsValidFields [] kvs = True"
| "specIsValidFields ((k, FieldConfig None r) # fs) kvs = specIsValidFields fs kvs"
| "specIsValidFields ((k, FieldConfig (Some t) r) # fs) kvs =
     ((case map_of kvs k of None \<Rightarrow> True | Some x \<Rightarrow> specIsValid t x) \<and> specIsValidFields fs kvs)"

fun specResolveWrappedType :: "valueType \<Rightarrow> value \<Rightarrow> valueType option"
and specResolveMember :: "valueType list \<Rightarrow> value \<Rightarrow> valueType option"
where
  "specResolveWrappedType (NonNullableType t) v = specResolveWrappedType t v"
| "specResolveWrappedType (UnionType n ts) v = specResolveMember ts v"
| "specResolveWrappedType t v = Some t"
| "specResolveMember [] v = None"
| "specResolveMember (t # ts) v =
     (if specIsValid t v then specResolveWrappedType t v else specResolveMember ts v)"

fun specMaybeGetfieldType :: "valueType option \<Rightarrow> string \<Rightarrow> fieldConfig option" where
  "specMaybeGetfieldType (Some (ObjectType n fs)) fieldName = map_of fs fieldName"
| "specMaybeGetfieldType t fieldName = None"

fun specGetSelectionSet :: "documentNode option \<Rightarrow> valueType \<Rightarrow> selectionSetNode option" where
  "specGetSelectionSet None t = None"
| "specGetSelectionSet (Some (DocumentNode s)) t = Some s"

fun fname :: "fieldNode \<Rightarrow> string" where
  "fname (FieldNode n a s) = n"

fun putField :: "(string \<times> fieldNode) list \<Rightarrow> string \<Rightarrow> fieldNode \<Rightarrow> (string \<times> fieldNode) list" where
  "putField [] k v = [(k, v)]"
| "putField ((k', v') # kvs) k v = (if k' = k then (k, v) # kvs else (k', v') # putField kvs k v)"

fun addStarFields :: "(string \<times> fieldNode) list \<Rightarrow> string list \<Rightarrow> (string \<times> fieldNode) list" where
  "addStarFields acc [] = acc"
| "addStarFields acc (k # ks) =
     addStarFields (if map_of acc k = None then acc @ [(k, FieldNode k None None)] else acc) ks"

fun addSelections :: "(string \<times> fieldNode) list \<Rightarrow> value \<Rightarrow> fieldNode list \<Rightarrow> (string \<times> fieldNode) list" where
  "addSelections acc data [] = acc"
| "addSelections acc data (f # fs) =
     addSelections
       (if fname f = ''*'' then addStarFields acc (map fst (ownFields data))
        else putField acc (fname f) f)
       data fs"

fun specGetSelectionFields ::
  "documentNode option \<Rightarrow> selectionSetNode option \<Rightarrow> valueType option \<Rightarrow> value
    \<Rightarrow> (string \<times> fieldNode) list" where
  "specGetSelectionFields doc None t data = addStarFields [] (map fst (ownFields data))"
| "specGetSelectionFields doc (Some (SelectionSetNode fs)) t data = addSelections [] data fs"

definition specDeps :: deps where
  "specDeps =
     \<lparr>isValid = specIsValid, resolveWrappedType = specResolveWrappedType,
      getSelectionSet = specGetSelectionSet, getSelectionFields = specGetSelectionFields,
      maybeGetfieldType = specMaybeGetfieldType\<rparr>"

section \<open>Sample caches\<close>

text \<open>
  A sample \<open>identify\<close>: the key of a type name \<open>T\<close> and a string id \<open>i\<close> is \<open>T:i\<close>,
  a type name without id is the key itself, any other id cannot be identified.
\<close>

definition exIdentify :: "identifyOptions \<Rightarrow> string option" where
  "exIdentify options =
     (case oid options of
        VStr s \<Rightarrow> Some (otype options @ '':'' @ s)
      | VUndefined \<Rightarrow> Some (otype options)
      | _ \<Rightarrow> None)"

text \<open>The README's \<open>LoggedIn\<close> flag, written with \<open>expiresAt: 0\<close>.\<close>

definition exLoggedIn :: valueType where
  "exLoggedIn = BooleanType (Some ''LoggedIn'')"

definition exLoggedInEntity :: entity where
  "exLoggedInEntity =
     \<lparr>eid = ''LoggedIn'', evalue = VBool True, eexpiresAt = 0, einvalidated = False\<rparr>"

definition exFlagCache :: cache where
  "exFlagCache =
     \<lparr>entities = [''LoggedIn'' \<mapsto> exLoggedInEntity], optimisticEntities = Map.empty,
      identify = exIdentify\<rparr>"

definition exNoOptions :: readOptions where
  "exNoOptions = \<lparr>optId = VUndefined, optSelect = None\<rparr>"

text \<open>What reading the flag without selector at time 100 returns.\<close>

definition exFlagResult :: readResult where
  "exFlagResult =
     \<lparr>rdata = Some (RRaw (VBool True)), rentityID = Some ''LoggedIn'', rexpiresAt = Some 0,
      rinvalidFields = None, rinvalidated = False, rmissingFields = None, rselector = None,
      rstale = True, rheap = []\<rparr>"





text \<open>
  An article with a nested object \<open>stats\<close> that is not an entity; the type of \<open>stats\<close>
  declares the computed field \<open>double\<close>, twice the \<open>views\<close> of the object it is given.
\<close>

definition exDouble :: "value \<Rightarrow> objectFieldReadContext \<Rightarrow> value" where
  "exDouble d rc = (case map_of (ownFields d) ''views'' of Some (VNum n) \<Rightarrow> VNum (2 * n) | _ \<Rightarrow> VUndefined)"

definition exStats :: valueType where
  "exStats = ObjectType None [(''double'', FieldConfig None (Some exDouble))]"

definition exArticle :: valueType where
  "exArticle = ObjectType (Some ''Article'') [(''stats'', FieldConfig (Some exStats) None)]"

definition exArticleEntity :: entity where
  "exArticleEntity =
     \<lparr>eid = ''Article:1'',
      evalue = VObj [(''stats'', VObj [(''views'', VNum 21)] [(''views'', - 1)] [])]
                 [(''stats'', - 1)] [],
      eexpiresAt = - 1, einvalidated = False\<rparr>"

definition exArticleCache :: cache where
  "exArticleCache =
     \<lparr>entities = [''Article:1'' \<mapsto> exArticleEntity], optimisticEntities = Map.empty,
      identify = exIdentify\<rparr>"

definition exArticleSelect :: documentNode where
  "exArticleSelect =
     DocumentNode (SelectionSetNode
       [FieldNode ''stats'' None (Some (SelectionSetNode [FieldNode ''double'' None None]))])"

definition exArticleOptions :: readOptions where
  "exArticleOptions = \<lparr>optId = VStr ''1'', optSelect = Some exArticleSelect\<rparr>"

definition exArticleResult :: readResult where
  "exArticleResult =
     \<lparr>rdata = Some (RObj 0), rentityID = Some ''Article:1'', rexpiresAt = None,
      rinvalidFields = None, rinvalidated = False, rmissingFields = None,
      rselector = Some exArticleSelect, rstale = False,
      rheap = [[(''stats'', RObj 1)], [(''double'', RRaw (VNum 42))]]\<rparr>"

text \<open>
  The README's computed relation: the author of a post is computed from \<open>authorId\<close>
  with \<open>toReference\<close>.  The store holds the post and not the author.
\<close>

definition exAuthorRead :: "value \<Rightarrow> objectFieldReadContext \<Rightarrow> value" where
  "exAuthorRead post rc =
     toReference rc
       \<lparr>otype = ''Author'',
        oid = (case map_of (ownFields post) ''authorId'' of Some v \<Rightarrow> v | None \<Rightarrow> VUndefined)\<rparr>"

definition exComputedPost :: valueType where
  "exComputedPost = ObjectType (Some ''Post'') [(''author'', FieldConfig None (Some exAuthorRead))]"

definition exComputedPostEntity :: entity where
  "exComputedPostEntity =
     \<lparr>eid = ''Post:1'',
      evalue = VObj [(''authorId'', VStr ''2'')] [(''authorId'', - 1)] [],
      eexpiresAt = - 1, einvalidated = False\<rparr>"

definition exComputedCache :: cache where
  "exComputedCache =
     \<lparr>entities = [''Post:1'' \<mapsto> exComputedPostEntity], optimisticEntities = Map.empty,
      identify = exIdentify\<rparr>"

definition exAuthorSelect :: documentNode where
  "exAuthorSelect = DocumentNode (SelectionSetNode [FieldNode ''author'' None None])"

definition exComputedOptions :: readOptions where
  "exComputedOptions = \<lparr>optId = VStr ''1'', optSelect = Some exAuthorSelect\<rparr>"

definition exComputedResult :: readResult where
  "exComputedResult =
     \<lparr>rdata = Some (RObj 0), rentityID = Some ''Post:1'', rexpiresAt = None,
      rinvalidFields = None, rinvalidated = False,
      rmissingFields = Some [[SName ''author'']],
      rselector = Some exAuthorSelect, rstale = False,
      rheap = [[(''author'', RRaw VUndefined)]]\<rparr>"









text \<open>
  An entity stored under the key \<open>toString\<close>, which expires at 7 and is invalidated, and
  what reading it without selector returns.
\<close>

definition exProtoType :: valueType where
  "exProtoType = BooleanType (Some ''toString'')"

definition exProtoEntity :: entity where
  "exProtoEntity =
     \<lparr>eid = ''toString'', evalue = VBool True, eexpiresAt = 7, einvalidated = True\<rparr>"

definition exProtoCache :: cache where
  "exProtoCache =
     \<lparr>entities = [''toString'' \<mapsto> exProtoEntity], optimisticEntities = Map.empty,
      identify = exIdentify\<rparr>"

definition exProtoResult :: readResult where
  "exProtoResult =
     \<lparr>rdata = Some (RProto ''toString''), rentityID = Some ''toString'', rexpiresAt = Some (- 1),
      rinvalidFields = None, rinvalidated = False, rmissingFields = None, rselector = None,
      rstale = False, rheap = []\<rparr>"

text \<open>A list entity whose value is an array holding a Reference to the list itself.\<close>

definition exLoopList :: valueType where
  "exLoopList = ArrayType (Some ''List'') None"

definition exLoopEntity :: entity where
  "exLoopEntity =
     \<lparr>eid = ''List:1'', evalue = VArr [VRef ''List:1''], eexpiresAt = - 1, einvalidated = False\<rparr>"

definition exLoopCache :: cache where
  "exLoopCache =
     \<lparr>entities = [''List:1'' \<mapsto> exLoopEntity], optimisticEntities = Map.empty,
      identify = exIdentify\<rparr>"

definition exLoopOptions :: readOptions where
  "exLoopOptions = \<lparr>optId = VStr ''1'', optSelect = None\<rparr>"

text \<open>
  Two nodes that reference each other (section 8 of the spec, cycle safety), and what
  reading the first without selector returns: the result object of \<open>B\<close> refers back
  to the result object of \<open>A\<close>.
\<close>

definition exNode :: valueType where
  "exNode = ObjectType (Some ''Node'') []"

definition exNodeA :: entity where
  "exNodeA =
     \<lparr>eid = ''Node:A'', evalue = VObj [(''b'', VRef ''Node:B'')] [(''b'', - 1)] [(''b'', False)],
      eexpiresAt = - 1, einvalidated = False\<rparr>"

definition exNodeB :: entity where
  "exNodeB =
     \<lparr>eid = ''Node:B'', evalue = VObj [(''a'', VRef ''Node:A'')] [(''a'', - 1)] [(''a'', False)],
      eexpiresAt = - 1, einvalidated = False\<rparr>"

definition exCycleCache :: cache where
  "exCycleCache =
     \<lparr>entities = [''Node:A'' \<mapsto> exNodeA, ''Node:B'' \<mapsto> exNodeB],
      optimisticEntities = Map.empty, identify = exIdentify\<rparr>"

definition exCycleOptions :: readOptions where
  "exCycleOptions = \<lparr>optId = VStr ''A'', optSelect = None\<rparr>"

definition exCycleResult :: readResult where
  "exCycleResult =
     \<lparr>rdata = Some (RObj 0), rentityID = Some ''Node:A'', rexpiresAt = Some (- 1),
      rinvalidFields = None, rinvalidated = False, rmissingFields = None,
      rselector = None, rstale = False,
      rheap = [[(''b'', RObj 1)], [(''a'', RObj 0)]]\<rparr>"

section \<open>How a traversal changes the context\<close>

text \<open>
  Every change a traversal makes to the context is a sequence of the context updates
  of read.ts, with each push on the path matched by a pop.  So a relation between
  contexts that is reflexive, transitive, holds across each update and holds across a
  matched push and pop holds between the context before and after a traversal.
\<close>

lemma traverse_rel:
  assumes Rrefl: "\<And>c. R c c"
    and Rtrans: "\<And>a b c. R a b \<Longrightarrow> R b c \<Longrightarrow> R a c"
    and miss: "\<And>c. R c (addMissingField c)"
    and inval: "\<And>c v. R c (addInvalidField c v)"
    and chkE: "\<And>c e og. R c (checkExpiresAt c e og)"
    and chkI: "\<And>c b og. R c (checkInvalidated c b og)"
    and new: "\<And>c. R c (snd (newObject c))"
    and memo: "\<And>c k a. R c (c\<lparr>fullEntityResults := (fullEntityResults c)(k \<mapsto> a)\<rparr>)"
    and setf: "\<And>c a k v. R c (setField c a k v)"
    and bracket: "\<And>c s c'. R (pushPath c s) c' \<Longrightarrow> R c (popPath c')"
  shows "traverseEntity D n ctx k ty sel = Some (r, ctx') \<Longrightarrow> R ctx ctx'"
    and "traverseValue D n ctx sel ty ent data = Some (r, ctx') \<Longrightarrow> R ctx ctx'"
    and "traverseFields D n ctx a ty data fs = Some ctx' \<Longrightarrow> R ctx ctx'"
    and "traverseElements D n ctx sel oft i xs = Some (rs, ctx') \<Longrightarrow> R ctx ctx'"
proof (induction D n ctx k ty sel and D n ctx sel ty ent data and D n ctx a ty data fs
    and D n ctx sel oft i xs
    arbitrary: r ctx' and r ctx' and ctx' and rs ctx'
    rule: traverseEntity_traverseValue_traverseFields_traverseElements.induct)
  case (1 D ctx entityID ty sel)
  then show ?case by simp
next
  case (2 D n ctx entityID ty sel)
  show ?case
  proof (cases "get (cache ctx) entityID (optimistic ctx)")
    case None
    with "2.prems" show ?thesis by (auto simp: miss)
  next
    case (Some e)
    show ?thesis
    proof (cases "if sel = None then fullEntityResult ctx (eid e) else None")
      case (Some a)
      with \<open>get (cache ctx) entityID (optimistic ctx) = Some e\<close> "2.prems" show ?thesis
        by (auto simp: Rrefl)
    next
      case None
      with \<open>get (cache ctx) entityID (optimistic ctx) = Some e\<close> "2.prems"
      have "traverseValue D n
              (checkInvalidated (checkExpiresAt ctx (Some (eexpiresAt e)) (OfEntity (eid e)))
                 (einvalidated e) (OfEntity (eid e))) sel ty (Some e) (evalue e) = Some (r, ctx')"
        by simp
      from "2.IH"[OF \<open>get (cache ctx) entityID (optimistic ctx) = Some e\<close> None this]
      show ?thesis by (meson Rtrans chkE chkI)
    qed
  qed
next
  case (3 D ctx sel ty ent data)
  then show ?case by simp
next
  case (4 D n ctx sel ty ent data)
  show ?case
  proof (cases "isReference data")
    case True
    with "4.prems" "4.IH"(1) show ?thesis by simp
  next
    case False
    obtain ty' ctx1 where ct: "(ty', ctx1) = checkType D ctx ty data"
      by (metis surj_pair)
    have r1: "R ctx ctx1"
      using ct by (auto simp: checkType_def Rrefl inval split: option.splits if_splits)
    show ?thesis
    proof (cases "isObjectWithMeta data")
      case True
      obtain a ctx2 where no: "(a, ctx2) = newObject ctx1" by (metis surj_pair)
      have r2: "R ctx1 ctx2" using new[of ctx1] no by (metis snd_conv)
      let ?c = "case ent of None \<Rightarrow> ctx2
               | Some e \<Rightarrow> if sel = None
                   then ctx2\<lparr>fullEntityResults := (fullEntityResults ctx2)(eid e \<mapsto> a)\<rparr>
                   else ctx2"
      have r3: "R ctx2 ?c" by (auto simp: Rrefl memo split: option.splits)
      from "4.prems" False True ct[symmetric] no[symmetric]
      have "traverseFields D n ?c a ty' data (getSelectionFields D (selector ctx2) sel ty' data)
              = Some ctx'"
        by (auto split: option.splits)
      from "4.IH"(2)[OF False ct True no this] have "R ?c ctx'" .
      with r1 r2 r3 show ?thesis by (meson Rtrans)
    next
      case nobj: False
      show ?thesis
      proof (cases "isArray data")
        case True
        from "4.prems" False nobj True ct[symmetric]
        obtain rs where "traverseElements D n ctx1 sel (arrayOfType ty') 0 (elements data)
              = Some (rs, ctx')"
          by (auto split: option.splits)
        from "4.IH"(3)[OF False ct nobj True this] r1 show ?thesis by (meson Rtrans)
      next
        case False
        with "4.prems" \<open>\<not> isReference data\<close> nobj ct[symmetric] r1 show ?thesis by auto
      qed
    qed
  qed
next
  case (5 D n ctx a ty data)
  then show ?case by (simp add: Rrefl)
next
  case (6 D n ctx a ty data fieldName selectionField rest)
  let ?x = "pushPath ctx (SName fieldName)"
  let ?tf = "maybeGetfieldType D ty fieldName"
  show ?case
  proof (cases "fieldValue ?x ?tf data fieldName")
    case None
    with "6.prems" have "traverseFields D n (popPath (addMissingField ?x)) a ty data rest = Some ctx'"
      by (simp add: Let_def)
    from "6.IH"(1)[OF refl refl None this] have "R (popPath (addMissingField ?x)) ctx'" .
    moreover have "R ctx (popPath (addMissingField ?x))"
      by (rule bracket[of _ "SName fieldName"]) (rule miss)
    ultimately show ?thesis by (meson Rtrans)
  next
    case (Some v)
    let ?c = "checkInvalidated (checkExpiresAt ?x (fieldExpiresAt data fieldName) (OfField (path ?x)))
                (fieldInvalidated data fieldName) (OfField (path ?x))"
    from "6.prems" Some obtain rv c2 where
      tv: "traverseValue D n ?c (selectionSet selectionField) (Option.bind ?tf ftype) None v = Some (rv, c2)"
      and tf: "traverseFields D n
                 (popPath (setField c2 a (case falias selectionField of None \<Rightarrow> fieldName | Some al \<Rightarrow> al) rv))
                 a ty data rest = Some ctx'"
      by (auto simp: Let_def split: option.splits)
    have "R ?c c2" by (rule "6.IH"(2)[OF refl refl Some tv])
    then have "R ?x (setField c2 a (case falias selectionField of None \<Rightarrow> fieldName | Some al \<Rightarrow> al) rv)"
      by (meson Rtrans chkE chkI setf)
    then have "R ctx (popPath (setField c2 a (case falias selectionField of None \<Rightarrow> fieldName | Some al \<Rightarrow> al) rv))"
      by (rule bracket)
    moreover have "R (popPath (setField c2 a (case falias selectionField of None \<Rightarrow> fieldName | Some al \<Rightarrow> al) rv)) ctx'"
      by (rule "6.IH"(3)[OF refl refl Some tv refl tf])
    ultimately show ?thesis by (meson Rtrans)
  qed
next
  case (7 D n ctx sel ofType i)
  then show ?case by (simp add: Rrefl)
next
  case (8 D n ctx sel ofType i x xs)
  from "8.prems" obtain rv c1 rs' where
    tv: "traverseValue D n (pushPath ctx (SIndex i)) sel ofType None x = Some (rv, c1)"
    and te: "traverseElements D n (popPath c1) sel ofType (Suc i) xs = Some (rs', ctx')"
    by (auto split: option.splits)
  have "R (pushPath ctx (SIndex i)) c1" by (rule "8.IH"(1)[OF tv])
  then have "R ctx (popPath c1)" by (rule bracket)
  moreover have "R (popPath c1) ctx'" by (rule "8.IH"(2)[OF tv refl te])
  ultimately show ?case by (meson Rtrans)
qed

section \<open>The sample caches evaluated\<close>

lemma exFlagCache_simps:
  "get exFlagCache k False = (if k = ''LoggedIn'' then Some exLoggedInEntity else None)"
  "get exFlagCache k True = None"
  "identify exFlagCache = exIdentify"
  by (simp_all add: exFlagCache_def get_def)

lemma exLoggedIn_resolve:
  "resolveEntity exFlagCache exLoggedIn VUndefined False = Some exLoggedInEntity"
  "resolveEntity exFlagCache exLoggedIn VUndefined True = None"
  by (simp_all add: resolveEntity_def exLoggedIn_def exFlagCache_simps exIdentify_def)

section \<open>Unresolved root\<close>

text \<open>
  C4.  When the root entity cannot be resolved (the type has no name, \<open>identify\<close>
  yields no key, or no entity is stored under the key in the consulted store),
  \<open>executeRead\<close> returns, whatever the depth bound, the empty result: no data, no
  entityID, expiresAt -1, invalidated false, no missingFields and no invalidFields,
  stale true, and the selector of the options.  It returns a result, not an error.
\<close>

theorem executeRead_unresolved:
  assumes "resolveEntity c ty (optId options) opt = None"
  shows "executeRead D n now c ty opt options =
           Some (\<lparr>rdata = None, rentityID = None, rexpiresAt = Some (- 1),
                  rinvalidFields = None, rinvalidated = False, rmissingFields = None,
                  rselector = optSelect options, rstale = True, rheap = []\<rparr>, c)"
  using assms by (simp add: executeRead_def emptyResult_def)

theorem executeRead_unresolved_witness:
  "resolveEntity exFlagCache exLoggedIn (optId exNoOptions) True = None \<and>
   executeRead specDeps 0 100 exFlagCache exLoggedIn True exNoOptions =
     Some (\<lparr>rdata = None, rentityID = None, rexpiresAt = Some (- 1),
            rinvalidFields = None, rinvalidated = False, rmissingFields = None,
            rselector = optSelect exNoOptions, rstale = True, rheap = []\<rparr>, exFlagCache)"
proof -
  have h: "resolveEntity exFlagCache exLoggedIn (optId exNoOptions) True = None"
    by (simp add: exNoOptions_def exLoggedIn_resolve)
  show ?thesis
    using h executeRead_unresolved [OF h, of specDeps 0 100] by simp
qed

lemmas ctx_defs = initialContext_def fullEntityResult_def objectPrototypeKeys_def
  checkExpiresAt_def checkInvalidated_def checkType_def
  newObject_def setField_def pushPath_def popPath_def addMissingField_def addInvalidField_def
  fieldValue_def hasOwn_def getField_def fieldExpiresAt_def fieldInvalidated_def fieldReadCtx_def
  createReference_def
  Let_def

lemma exFlag_read:
  "executeRead specDeps (Suc (Suc 0)) 100 exFlagCache exLoggedIn False exNoOptions =
     Some (exFlagResult, exFlagCache)"
  apply (simp add: executeRead_def exNoOptions_def exLoggedIn_resolve)
  apply (simp add: exFlagCache_simps exLoggedInEntity_def exLoggedIn_def specDeps_def ctx_defs
      emptyResult_def exFlagResult_def)
  done

lemma exFlag_resolved:
  "resolveEntity exFlagCache exLoggedIn (optId exNoOptions) False = Some exLoggedInEntity"
  by (simp add: exNoOptions_def exLoggedIn_resolve)

section \<open>The stale flag\<close>

lemma jsLessEq_Some: "jsLessEq x (Some n) = (\<exists>t. x = Some t \<and> t \<le> n)"
  by (cases x) auto

text \<open>
  C2.  When the root entity is found and \<open>executeRead\<close> returns, the result is stale
  exactly when its invalidated flag is set, or its expiresAt is a number other than
  -1 that is less than or equal to the current time.
\<close>

theorem executeRead_stale:
  assumes "executeRead D n now c ty opt options = Some (res, c')"
    and "resolveEntity c ty (optId options) opt = Some e"
  shows "rstale res =
           (rinvalidated res \<or> (\<exists>t. rexpiresAt res = Some t \<and> t \<noteq> - 1 \<and> t \<le> now))"
  using assms
  by (auto simp: executeRead_def emptyResult_def jsLessEq_Some split: option.splits)

theorem executeRead_stale_witness:
  "executeRead specDeps (Suc (Suc 0)) 100 exFlagCache exLoggedIn False exNoOptions =
     Some (exFlagResult, exFlagCache) \<and>
   resolveEntity exFlagCache exLoggedIn (optId exNoOptions) False = Some exLoggedInEntity \<and>
   rstale exFlagResult =
     (rinvalidated exFlagResult \<or>
      (\<exists>t. rexpiresAt exFlagResult = Some t \<and> t \<noteq> - 1 \<and> t \<le> 100))"
  by (rule conjI[OF exFlag_read conjI[OF exFlag_resolved
        executeRead_stale[OF exFlag_read exFlag_resolved]]])

section \<open>The read leaves the cache as it is\<close>

lemma traverseEntity_cache:
  assumes "traverseEntity D n ctx k ty sel = Some (r, ctx')"
  shows "cache ctx' = cache ctx"
  by (rule traverse_rel(1)[where R = "\<lambda>a b. cache b = cache a", OF _ _ _ _ _ _ _ _ _ _ assms])
    (simp_all add: ctx_defs)

text \<open>
  C9.  \<open>executeRead\<close> does not modify the cache: the cache after the call, with its
  confirmed and its optimistic store and so with the value, expiresAt and invalidated
  of every entity, is the cache before the call.  The computed \<open>read\<close> functions are
  functions of their arguments, so they cannot touch the cache.
\<close>

theorem executeRead_cache_unchanged:
  assumes "executeRead D n now c ty opt options = Some (res, c')"
  shows "c' = c"
proof (cases "resolveEntity c ty (optId options) opt")
  case None
  with assms show ?thesis by (simp add: executeRead_def)
next
  case (Some e)
  with assms obtain d ctx where
    t: "traverseEntity D n (initialContext c opt (optSelect options)) (eid e) (Some ty)
          (getSelectionSet D (optSelect options) ty) = Some (d, ctx)"
    and c': "c' = cache ctx"
    by (auto simp: executeRead_def split: option.splits)
  from traverseEntity_cache[OF t] c' show ?thesis by (simp add: initialContext_def)
qed

theorem executeRead_cache_unchanged_witness:
  "executeRead specDeps (Suc (Suc 0)) 100 exFlagCache exLoggedIn False exNoOptions =
     Some (exFlagResult, exFlagCache) \<and> exFlagCache = exFlagCache"
  by (rule conjI[OF exFlag_read executeRead_cache_unchanged[OF exFlag_read]])

section \<open>Dangling references\<close>

lemma checks_frame [simp]:
  "cache (checkExpiresAt c e og) = cache c" "optimistic (checkExpiresAt c e og) = optimistic c"
  "path (checkExpiresAt c e og) = path c" "missingFields (checkExpiresAt c e og) = missingFields c"
  "heap (checkExpiresAt c e og) = heap c" "invalidFields (checkExpiresAt c e og) = invalidFields c"
  "fullEntityResults (checkExpiresAt c e og) = fullEntityResults c"
  "selector (checkExpiresAt c e og) = selector c"
  "cache (checkInvalidated c b og) = cache c" "optimistic (checkInvalidated c b og) = optimistic c"
  "path (checkInvalidated c b og) = path c" "missingFields (checkInvalidated c b og) = missingFields c"
  "heap (checkInvalidated c b og) = heap c" "invalidFields (checkInvalidated c b og) = invalidFields c"
  "fullEntityResults (checkInvalidated c b og) = fullEntityResults c"
  "selector (checkInvalidated c b og) = selector c"
  by (simp_all add: checkExpiresAt_def checkInvalidated_def Let_def)






section \<open>Values that fail the schema\<close>








section \<open>Arrays\<close>






section \<open>Computed fields\<close>

lemma exArticleCache_simps:
  "get exArticleCache k False = (if k = ''Article:1'' then Some exArticleEntity else None)"
  "identify exArticleCache = exIdentify"
  by (simp_all add: exArticleCache_def get_def)

lemma exArticle_resolve:
  "resolveEntity exArticleCache exArticle (VStr ''1'') False = Some exArticleEntity"
  by (simp add: resolveEntity_def exArticle_def exArticleCache_simps exIdentify_def)

lemma exArticle_read:
  "executeRead specDeps (Suc (Suc (Suc (Suc 0)))) 100 exArticleCache exArticle False exArticleOptions =
     Some (exArticleResult, exArticleCache)"
  apply (simp add: executeRead_def exArticleOptions_def exArticle_resolve)
  apply (simp add: exArticleCache_simps exArticleEntity_def exArticle_def exStats_def specDeps_def
      exArticleSelect_def exDouble_def ctx_defs emptyResult_def exArticleResult_def)
  done

text \<open>
  Reading \<open>{ stats { double } }\<close> of the article: the computed field of the nested
  object is 42, twice the \<open>views\<close> of the nested object, whereas the function applied
  to the raw value of the entity gives \<open>undefined\<close>.
\<close>

theorem computed_read_argument_counterexample:
  "executeRead specDeps (Suc (Suc (Suc (Suc 0)))) 100 exArticleCache exArticle False exArticleOptions =
     Some (exArticleResult, exArticleCache) \<and>
   rdata exArticleResult = Some (RObj 0) \<and>
   map_of (rheap exArticleResult ! 0) ''stats'' = Some (RObj 1) \<and>
   map_of (rheap exArticleResult ! 1) ''double'' = Some (RRaw (VNum 42)) \<and>
   maybeGetfieldType specDeps (Some exStats) ''double'' = Some (FieldConfig None (Some exDouble)) \<and>
   exDouble (evalue exArticleEntity)
     (fieldReadCtx (initialContext exArticleCache False (Some exArticleSelect))) = VUndefined"
  using exArticle_read
  by (simp add: exArticleResult_def specDeps_def exStats_def exDouble_def exArticleEntity_def)

text \<open>
  C7, as the code has it.  For a selected field whose FieldConfig declares a computed \<open>read\<close>
  function, the value of the field, which is then traversed like any other field
  value, is what that function returns for the object that holds the field (the raw
  stored value of the entity when the field is the entity's own, the nested object
  otherwise) and a context whose \<open>toReference\<close> gives a Reference to the key that
  \<open>identify\<close> finds for the type and id, and \<open>undefined\<close> when it finds none (or the
  empty key).  The stored value of the field itself is not consulted.  For a field
  without \<open>read\<close> function the value is the stored value, when there is one.
\<close>

theorem computed_field_value:
  assumes "maybeGetfieldType D ty f = Some tf"
    and "fread tf = Some rd"
    and "Option.bind (maybeGetfieldType D ty g) fread = None"
  shows
    "fieldValue ctx (maybeGetfieldType D ty f) data f = Some (rd data (fieldReadCtx ctx)) \<and>
     traverseFields D n ctx a ty data ((f, sf) # rest) =
       (case traverseValue D n
               (checkInvalidated
                  (checkExpiresAt (pushPath ctx (SName f)) (fieldExpiresAt data f)
                     (OfField (path ctx @ [SName f])))
                  (fieldInvalidated data f) (OfField (path ctx @ [SName f])))
               (selectionSet sf) (ftype tf) None
               (rd data (fieldReadCtx (pushPath ctx (SName f)))) of
          None \<Rightarrow> None
        | Some (r, c2) \<Rightarrow>
            traverseFields D n
              (popPath (setField c2 a (case falias sf of Some al \<Rightarrow> al | None \<Rightarrow> f) r))
              a ty data rest) \<and>
     toReference (fieldReadCtx ctx) options =
       (case identify (cache ctx) options of
          None \<Rightarrow> VUndefined
        | Some k \<Rightarrow> if k = [] then VUndefined else VRef k) \<and>
     fieldValue ctx (maybeGetfieldType D ty g) data g = map_of (ownFields data) g"
proof (intro conjI)
  show "fieldValue ctx (maybeGetfieldType D ty f) data f = Some (rd data (fieldReadCtx ctx))"
    using assms(1,2) by (simp add: fieldValue_def)
  show "traverseFields D n ctx a ty data ((f, sf) # rest) =
       (case traverseValue D n
               (checkInvalidated
                  (checkExpiresAt (pushPath ctx (SName f)) (fieldExpiresAt data f)
                     (OfField (path ctx @ [SName f])))
                  (fieldInvalidated data f) (OfField (path ctx @ [SName f])))
               (selectionSet sf) (ftype tf) None
               (rd data (fieldReadCtx (pushPath ctx (SName f)))) of
          None \<Rightarrow> None
        | Some (r, c2) \<Rightarrow>
            traverseFields D n
              (popPath (setField c2 a (case falias sf of Some al \<Rightarrow> al | None \<Rightarrow> f) r))
              a ty data rest)"
    using assms(1,2) by (simp add: fieldValue_def Let_def pushPath_def)
  show "toReference (fieldReadCtx ctx) options =
       (case identify (cache ctx) options of
          None \<Rightarrow> VUndefined
        | Some k \<Rightarrow> if k = [] then VUndefined else VRef k)"
    by (simp add: fieldReadCtx_def createReference_def split: option.splits)
  show "fieldValue ctx (maybeGetfieldType D ty g) data g = map_of (ownFields data) g"
    using assms(3) by (auto simp: fieldValue_def hasOwn_def getField_def split: option.splits)
qed

lemma exStats_fields:
  "maybeGetfieldType specDeps (Some exStats) ''double'' = Some (FieldConfig None (Some exDouble))"
  "fread (FieldConfig None (Some exDouble)) = Some exDouble"
  "Option.bind (maybeGetfieldType specDeps (Some exStats) ''views'') fread = None"
  by (simp_all add: specDeps_def exStats_def)

theorem computed_field_value_witness:
  "maybeGetfieldType specDeps (Some exStats) ''double'' = Some (FieldConfig None (Some exDouble)) \<and>
   fread (FieldConfig None (Some exDouble)) = Some exDouble \<and>
   Option.bind (maybeGetfieldType specDeps (Some exStats) ''views'') fread = None \<and>
   fieldValue (initialContext exArticleCache False None)
     (maybeGetfieldType specDeps (Some exStats) ''double'')
     (VObj [(''views'', VNum 21), (''double'', VNum 7)] [] []) ''double'' = Some (VNum 42) \<and>
   toReference (fieldReadCtx (initialContext exArticleCache False None))
     \<lparr>otype = ''Author'', oid = VStr ''2''\<rparr> = VRef ''Author:2'' \<and>
   toReference (fieldReadCtx (initialContext exArticleCache False None))
     \<lparr>otype = ''Author'', oid = VNull\<rparr> = VUndefined \<and>
   fieldValue (initialContext exArticleCache False None)
     (maybeGetfieldType specDeps (Some exStats) ''views'')
     (VObj [(''views'', VNum 21), (''double'', VNum 7)] [] []) ''views'' = Some (VNum 21)"
  using exStats_fields
    computed_field_value [OF exStats_fields, of "initialContext exArticleCache False None"
      "VObj [(''views'', VNum 21), (''double'', VNum 7)] [] []" 0 0 "FieldNode ''double'' None None" "[]"
      "\<lparr>otype = ''Author'', oid = VStr ''2''\<rparr>"]
    computed_field_value [OF exStats_fields, of "initialContext exArticleCache False None"
      "VObj [(''views'', VNum 21), (''double'', VNum 7)] [] []" 0 0 "FieldNode ''double'' None None" "[]"
      "\<lparr>otype = ''Author'', oid = VNull\<rparr>"]
  by (simp add: exDouble_def initialContext_def exArticleCache_simps exIdentify_def)

section \<open>Missing fields and computed fields\<close>

text \<open>
  Every path a traversal adds to \<open>missingFields\<close> extends the path at which the
  traversal started; when the traversed value is not a Reference the added paths are
  strictly longer.
\<close>

lemma missing_prefix:
  "traverseEntity D n ctx k ty sel = Some (r, ctx') \<Longrightarrow>
     path ctx' = path ctx \<and>
     (\<exists>ms. missingFields ctx' = missingFields ctx @ ms \<and> (\<forall>m\<in>set ms. \<exists>suf. m = path ctx @ suf))"
  "traverseValue D n ctx sel ty ent data = Some (r, ctx') \<Longrightarrow>
     path ctx' = path ctx \<and>
     (\<exists>ms. missingFields ctx' = missingFields ctx @ ms \<and> (\<forall>m\<in>set ms. \<exists>suf. m = path ctx @ suf))"
proof -
  let ?R = "\<lambda>(a::readContext) (b::readContext). path b = path a \<and>
     (\<exists>ms. missingFields b = missingFields a @ ms \<and> (\<forall>m\<in>set ms. \<exists>suf. m = path a @ suf))"
  have Rtrans: "\<And>a b c. ?R a b \<Longrightarrow> ?R b c \<Longrightarrow> ?R a c"
  proof -
    fix a b c :: readContext assume ab: "?R a b" and bc: "?R b c"
    from ab obtain ms where ms: "missingFields b = missingFields a @ ms"
      "\<forall>m\<in>set ms. \<exists>suf. m = path a @ suf" and p: "path b = path a" by blast
    from bc p obtain ms' where ms': "missingFields c = missingFields b @ ms'"
      "\<forall>m\<in>set ms'. \<exists>suf. m = path a @ suf" and p': "path c = path a" by auto
    have "missingFields c = missingFields a @ (ms @ ms')" using ms ms' by simp
    moreover have "\<forall>m\<in>set (ms @ ms'). \<exists>suf. m = path a @ suf" using ms ms' by auto
    ultimately show "?R a c" using p' by blast
  qed
  have bracket: "\<And>c s c'. ?R (pushPath c s) c' \<Longrightarrow> ?R c (popPath c')"
  proof -
    fix c c' :: readContext and s assume "?R (pushPath c s) c'"
    then obtain ms where p: "path c' = path c @ [s]"
      and ms: "missingFields c' = missingFields c @ ms"
      "\<forall>m\<in>set ms. \<exists>suf. m = (path c @ [s]) @ suf"
      by (auto simp: pushPath_def)
    from ms(2) have "\<forall>m\<in>set ms. \<exists>suf. m = path c @ suf" by (metis append_assoc)
    with p ms(1) show "?R c (popPath c')" by (simp add: popPath_def)
  qed
  show "traverseEntity D n ctx k ty sel = Some (r, ctx') \<Longrightarrow> ?R ctx ctx'"
    by (rule traverse_rel(1)[where R = ?R, OF _ Rtrans _ _ _ _ _ _ _ bracket])
      (assumption | simp add: ctx_defs)+
  show "traverseValue D n ctx sel ty ent data = Some (r, ctx') \<Longrightarrow> ?R ctx ctx'"
    by (rule traverse_rel(2)[where R = ?R, OF _ Rtrans _ _ _ _ _ _ _ bracket])
      (assumption | simp add: ctx_defs)+
qed


lemma traverseFields_missing_below:
  "traverseFields D n ctx a ty data fs = Some ctx' \<Longrightarrow>
     path ctx' = path ctx \<and>
     (\<exists>ms. missingFields ctx' = missingFields ctx @ ms \<and>
        (\<forall>m\<in>set ms. \<exists>s suf. m = path ctx @ s # suf))"
proof (induction fs arbitrary: ctx)
  case Nil
  then show ?case by simp
next
  case (Cons fsf rest)
  obtain f sf where fsf: "fsf = (f, sf)" by (cases fsf)
  let ?x = "pushPath ctx (SName f)"
  let ?tf = "maybeGetfieldType D ty f"
  have step: "\<exists>c1. traverseFields D n c1 a ty data rest = Some ctx' \<and> path c1 = path ctx \<and>
     (\<exists>ms. missingFields c1 = missingFields ctx @ ms \<and>
        (\<forall>m\<in>set ms. \<exists>s suf. m = path ctx @ s # suf))"
  proof (cases "fieldValue ?x ?tf data f")
    case None
    with Cons.prems fsf
    have "traverseFields D n (popPath (addMissingField ?x)) a ty data rest = Some ctx'"
      by (simp add: Let_def)
    moreover have "missingFields (popPath (addMissingField ?x)) =
        missingFields ctx @ [path ctx @ [SName f]]"
      "path (popPath (addMissingField ?x)) = path ctx"
      by (simp_all add: popPath_def addMissingField_def pushPath_def)
    ultimately show ?thesis by (intro exI[of _ "popPath (addMissingField ?x)"]) auto
  next
    case (Some v)
    let ?c = "checkInvalidated (checkExpiresAt ?x (fieldExpiresAt data f) (OfField (path ?x)))
                (fieldInvalidated data f) (OfField (path ?x))"
    let ?al = "case falias sf of None \<Rightarrow> f | Some al \<Rightarrow> al"
    from Cons.prems fsf Some obtain rv c2 where
      tv: "traverseValue D n ?c (selectionSet sf) (Option.bind ?tf ftype) None v = Some (rv, c2)"
      and tf: "traverseFields D n (popPath (setField c2 a ?al rv)) a ty data rest = Some ctx'"
      by (auto simp: Let_def split: option.splits)
    from missing_prefix(2)[OF tv] obtain ms where
      p: "path c2 = path ctx @ [SName f]"
      and ms: "missingFields c2 = missingFields ctx @ ms"
      "\<forall>m\<in>set ms. \<exists>suf. m = (path ctx @ [SName f]) @ suf"
      by (auto simp: pushPath_def)
    from ms(2) have "\<forall>m\<in>set ms. \<exists>s suf. m = path ctx @ s # suf" by auto
    moreover have "missingFields (popPath (setField c2 a ?al rv)) = missingFields c2"
      "path (popPath (setField c2 a ?al rv)) = path ctx"
      using p by (simp_all add: popPath_def setField_def)
    ultimately show ?thesis using tf ms(1)
      by (intro exI[of _ "popPath (setField c2 a ?al rv)"]) auto
  qed
  then obtain c1 ms where c1: "traverseFields D n c1 a ty data rest = Some ctx'"
    "path c1 = path ctx" "missingFields c1 = missingFields ctx @ ms"
    "\<forall>m\<in>set ms. \<exists>s suf. m = path ctx @ s # suf" by blast
  from Cons.IH[OF c1(1)] c1(2) obtain ms' where
    "path ctx' = path ctx" "missingFields ctx' = missingFields c1 @ ms'"
    "\<forall>m\<in>set ms'. \<exists>s suf. m = path ctx @ s # suf" by auto
  with c1 have "missingFields ctx' = missingFields ctx @ (ms @ ms')"
    "\<forall>m\<in>set (ms @ ms'). \<exists>s suf. m = path ctx @ s # suf" by auto
  with \<open>path ctx' = path ctx\<close> show ?case by blast
qed

lemma traverseElements_missing_below:
  "traverseElements D n ctx sel oft i xs = Some (rs, ctx') \<Longrightarrow>
     path ctx' = path ctx \<and>
     (\<exists>ms. missingFields ctx' = missingFields ctx @ ms \<and>
        (\<forall>m\<in>set ms. \<exists>s suf. m = path ctx @ s # suf))"
proof (induction xs arbitrary: ctx i rs)
  case Nil
  then show ?case by simp
next
  case (Cons x xs)
  from Cons.prems obtain r1 c1 rs' where
    tv: "traverseValue D n (pushPath ctx (SIndex i)) sel oft None x = Some (r1, c1)"
    and te: "traverseElements D n (popPath c1) sel oft (Suc i) xs = Some (rs', ctx')"
    by (auto split: option.splits)
  from missing_prefix(2)[OF tv] obtain ms where
    p: "path c1 = path ctx @ [SIndex i]"
    and ms: "missingFields c1 = missingFields ctx @ ms"
    "\<forall>m\<in>set ms. \<exists>suf. m = (path ctx @ [SIndex i]) @ suf"
    by (auto simp: pushPath_def)
  from ms(2) have ms2: "\<forall>m\<in>set ms. \<exists>s suf. m = path ctx @ s # suf" by auto
  have pp: "missingFields (popPath c1) = missingFields c1" "path (popPath c1) = path ctx"
    using p by (simp_all add: popPath_def)
  from Cons.IH[OF te] pp obtain ms' where
    "path ctx' = path ctx" "missingFields ctx' = missingFields c1 @ ms'"
    "\<forall>m\<in>set ms'. \<exists>s suf. m = path ctx @ s # suf" by auto
  with ms(1) ms2 have "missingFields ctx' = missingFields ctx @ (ms @ ms')"
    "\<forall>m\<in>set (ms @ ms'). \<exists>s suf. m = path ctx @ s # suf" by auto
  with \<open>path ctx' = path ctx\<close> show ?case by blast
qed

lemma traverseValue_missing_below:
  assumes "\<not> isReference data"
    and "traverseValue D n ctx sel ty ent data = Some (r, ctx')"
  shows "\<exists>ms. missingFields ctx' = missingFields ctx @ ms \<and>
        (\<forall>m\<in>set ms. \<exists>s suf. m = path ctx @ s # suf)"
proof -
  from assms(2) obtain m where n: "n = Suc m" by (cases n) auto
  obtain ty' ctx1 where ct: "checkType D ctx ty data = (ty', ctx1)" by (metis surj_pair)
  have c1: "path ctx1 = path ctx" "missingFields ctx1 = missingFields ctx"
    using ct by (auto simp: checkType_def addInvalidField_def split: option.splits if_splits)
  show ?thesis
  proof (cases "isObjectWithMeta data")
    case True
    let ?c2 = "snd (newObject ctx1)"
    let ?a = "fst (newObject ctx1)"
    let ?c = "case ent of None \<Rightarrow> ?c2
              | Some e \<Rightarrow> if sel = None
                  then ?c2\<lparr>fullEntityResults := (fullEntityResults ?c2)(eid e \<mapsto> ?a)\<rparr>
                  else ?c2"
    from assms True ct n
    have tf: "traverseFields D m ?c ?a ty' data
                (getSelectionFields D (selector ?c2) sel ty' data) = Some ctx'"
      by (auto simp: newObject_def split: option.splits prod.splits)
    have "path ?c = path ctx" "missingFields ?c = missingFields ctx"
      using c1 by (simp_all add: newObject_def split: option.splits)
    with traverseFields_missing_below[OF tf] show ?thesis by simp
  next
    case nobj: False
    show ?thesis
    proof (cases "isArray data")
      case True
      from assms nobj True ct n obtain rs where
        te: "traverseElements D m ctx1 sel (arrayOfType ty') 0 (elements data) = Some (rs, ctx')"
        by (auto split: option.splits)
      from traverseElements_missing_below[OF te] c1 show ?thesis by simp
    next
      case False
      with assms nobj ct n have "ctx' = ctx1" by auto
      with c1 show ?thesis by simp
    qed
  qed
qed

text \<open>
  C10, as the code has it.  A selected field whose FieldConfig declares a computed \<open>read\<close>
  function counts as found whatever the function returns and whether or not a value is
  stored: the loop does not record it as missing.  When the function returns a value
  that is not a Reference (\<open>undefined\<close> included), handling the field adds no entry
  with the field's path to \<open>missingFields\<close>.
\<close>

theorem computed_field_not_missing:
  assumes "maybeGetfieldType D ty f = Some tf"
    and "fread tf = Some rd"
    and "\<not> isReference (rd data (fieldReadCtx (pushPath ctx (SName f))))"
    and "traverseFields D n ctx a ty data [(f, sf)] = Some ctx'"
  shows "\<exists>ms. missingFields ctx' = missingFields ctx @ ms \<and> path ctx @ [SName f] \<notin> set ms"
proof -
  let ?x = "pushPath ctx (SName f)"
  let ?v = "rd data (fieldReadCtx ?x)"
  let ?c = "checkInvalidated (checkExpiresAt ?x (fieldExpiresAt data f) (OfField (path ?x)))
              (fieldInvalidated data f) (OfField (path ?x))"
  let ?al = "case falias sf of None \<Rightarrow> f | Some al \<Rightarrow> al"
  have fv: "fieldValue ?x (maybeGetfieldType D ty f) data f = Some ?v"
    using assms(1,2) by (simp add: fieldValue_def)
  with assms(4) obtain rv c2 where
    tv: "traverseValue D n ?c (selectionSet sf) (Option.bind (maybeGetfieldType D ty f) ftype)
           None ?v = Some (rv, c2)"
    and c': "ctx' = popPath (setField c2 a ?al rv)"
    by (auto simp: Let_def split: option.splits)
  from traverseValue_missing_below[OF assms(3) tv] obtain ms where
    ms: "missingFields c2 = missingFields ctx @ ms"
    "\<forall>m\<in>set ms. \<exists>s suf. m = (path ctx @ [SName f]) @ s # suf"
    by (auto simp: pushPath_def)
  have "path ctx @ [SName f] \<notin> set ms"
  proof
    assume "path ctx @ [SName f] \<in> set ms"
    with ms(2) obtain s suf where "path ctx @ [SName f] = (path ctx @ [SName f]) @ s # suf"
      by blast
    then show False by simp
  qed
  moreover have "missingFields ctx' = missingFields ctx @ ms"
    using c' ms(1) by (simp add: popPath_def setField_def)
  ultimately show ?thesis by blast
qed

lemma exComputedCache_simps:
  "get exComputedCache k False = (if k = ''Post:1'' then Some exComputedPostEntity else None)"
  "identify exComputedCache = exIdentify"
  by (simp_all add: exComputedCache_def get_def)

lemma exComputed_resolve:
  "resolveEntity exComputedCache exComputedPost (VStr ''1'') False = Some exComputedPostEntity"
  by (simp add: resolveEntity_def exComputedPost_def exComputedCache_simps exIdentify_def)

lemma exComputed_read:
  "executeRead specDeps (Suc (Suc (Suc (Suc 0)))) 100 exComputedCache exComputedPost False
     exComputedOptions = Some (exComputedResult, exComputedCache)"
  apply (simp add: executeRead_def exComputedOptions_def exComputed_resolve)
  apply (simp add: exComputedCache_simps exComputedPostEntity_def exComputedPost_def specDeps_def
      exAuthorSelect_def exAuthorRead_def exIdentify_def ctx_defs emptyResult_def
      exComputedResult_def)
  done

lemma exComputed_field:
  "maybeGetfieldType specDeps (Some exComputedPost) ''author'' =
     Some (FieldConfig None (Some exAuthorRead))"
  by (simp add: specDeps_def exComputedPost_def)

text \<open>
  Reading \<open>{ author }\<close> of the post: the computed field returns a Reference to an
  author that is not stored, and its path is recorded in \<open>missingFields\<close>.
\<close>

theorem computed_field_missing_counterexample:
  "executeRead specDeps (Suc (Suc (Suc (Suc 0)))) 100 exComputedCache exComputedPost False
     exComputedOptions = Some (exComputedResult, exComputedCache) \<and>
   maybeGetfieldType specDeps (Some exComputedPost) ''author'' =
     Some (FieldConfig None (Some exAuthorRead)) \<and>
   rmissingFields exComputedResult = Some [[SName ''author'']]"
  using exComputed_read exComputed_field by (simp add: exComputedResult_def)

lemma exUndefined_fields:
  "maybeGetfieldType specDeps (Some exStats) ''double'' = Some (FieldConfig None (Some exDouble))"
  "fread (FieldConfig None (Some exDouble)) = Some exDouble"
  "\<not> isReference (exDouble (VObj [] [] [])
      (fieldReadCtx (pushPath (initialContext exArticleCache False None) (SName ''double''))))"
  "exDouble (VObj [] [] [])
      (fieldReadCtx (pushPath (initialContext exArticleCache False None) (SName ''double''))) =
   VUndefined"
  by (simp_all add: specDeps_def exStats_def exDouble_def)

lemma exUndefined_run:
  "traverseFields specDeps (Suc 0) (initialContext exArticleCache False None) 0 (Some exStats)
     (VObj [] [] []) [(''double'', FieldNode ''double'' None None)] =
   Some ((initialContext exArticleCache False None)
          \<lparr>expiresAt := None,
           checkedExpiresAt := [(OfField [SName ''double''], None)],
           checkedInvalidated := [(OfField [SName ''double''], False)]\<rparr>)"
  by (simp add: specDeps_def exStats_def exDouble_def ctx_defs)

theorem computed_field_not_missing_witness:
  "maybeGetfieldType specDeps (Some exStats) ''double'' = Some (FieldConfig None (Some exDouble)) \<and>
   fread (FieldConfig None (Some exDouble)) = Some exDouble \<and>
   exDouble (VObj [] [] [])
      (fieldReadCtx (pushPath (initialContext exArticleCache False None) (SName ''double''))) =
     VUndefined \<and>
   traverseFields specDeps (Suc 0) (initialContext exArticleCache False None) 0 (Some exStats)
     (VObj [] [] []) [(''double'', FieldNode ''double'' None None)] =
   Some ((initialContext exArticleCache False None)
          \<lparr>expiresAt := None,
           checkedExpiresAt := [(OfField [SName ''double''], None)],
           checkedInvalidated := [(OfField [SName ''double''], False)]\<rparr>) \<and>
   (\<exists>ms. missingFields ((initialContext exArticleCache False None)
          \<lparr>expiresAt := None,
           checkedExpiresAt := [(OfField [SName ''double''], None)],
           checkedInvalidated := [(OfField [SName ''double''], False)]\<rparr>) =
      missingFields (initialContext exArticleCache False None) @ ms \<and>
      path (initialContext exArticleCache False None) @ [SName ''double''] \<notin> set ms)"
  using exUndefined_fields exUndefined_run
    computed_field_not_missing [OF exUndefined_fields(1,2,3) exUndefined_run]
  by blast

section \<open>Rolling up expiresAt and invalidated\<close>



























text \<open>
  Reading the entity stored under \<open>toString\<close> without selector: the lookup in
  \<open>fullEntityResults\<close> finds the inherited member, which is returned as the data; the
  entity is not entered, and its expiresAt 7 and its invalidated flag do not reach the
  result.
\<close>

lemma exProtoCache_simps:
  "get exProtoCache k False = (if k = ''toString'' then Some exProtoEntity else None)"
  "identify exProtoCache = exIdentify"
  by (simp_all add: exProtoCache_def get_def)

lemma exProto_resolve:
  "resolveEntity exProtoCache exProtoType (optId exNoOptions) False = Some exProtoEntity"
  by (simp add: resolveEntity_def exProtoType_def exProtoCache_simps exIdentify_def exNoOptions_def)

lemma exProto_read:
  "executeRead specDeps (Suc n) now exProtoCache exProtoType False exNoOptions =
     Some (exProtoResult, exProtoCache) \<and>
   eid exProtoEntity = ''toString'' \<and> eexpiresAt exProtoEntity = 7 \<and> einvalidated exProtoEntity \<and>
   rexpiresAt exProtoResult = Some (- 1) \<and> \<not> rinvalidated exProtoResult"
  by (simp add: executeRead_def exProto_resolve)
    (simp add: exNoOptions_def exProtoCache_simps exProtoEntity_def specDeps_def exProtoType_def
      ctx_defs emptyResult_def exProtoResult_def)

section \<open>Cycles\<close>

lemma exLoop_resolve:
  "resolveEntity exLoopCache exLoopList (optId exLoopOptions) False = Some exLoopEntity"
  by (simp add: resolveEntity_def exLoopList_def exLoopCache_def get_def exIdentify_def
      exLoopOptions_def)

lemma checkType_keeps:
  "cache (snd (checkType D ctx ty data)) = cache ctx"
  "optimistic (snd (checkType D ctx ty data)) = optimistic ctx"
  "fullEntityResults (snd (checkType D ctx ty data)) = fullEntityResults ctx"
  by (simp_all add: checkType_def addInvalidField_def split: option.splits)

lemma exLoop_diverges:
  "cache ctx = exLoopCache \<Longrightarrow> optimistic ctx = False \<Longrightarrow>
   fullEntityResults ctx ''List:1'' = None \<Longrightarrow>
   traverseEntity D n ctx ''List:1'' ty sel = None"
proof (induction n arbitrary: ctx ty rule: less_induct)
  case (less n)
  have g: "get (cache ctx) ''List:1'' (optimistic ctx) = Some exLoopEntity"
    using less.prems by (simp add: get_def exLoopCache_def)
  show ?case
  proof (cases n)
    case 0
    then show ?thesis by simp
  next
    case (Suc a)
    let ?c1 = "checkInvalidated (checkExpiresAt ctx (Some (eexpiresAt exLoopEntity))
                 (OfEntity (eid exLoopEntity))) (einvalidated exLoopEntity) (OfEntity (eid exLoopEntity))"
    have e1: "traverseEntity D n ctx ''List:1'' ty sel =
        traverseValue D a ?c1 sel ty (Some exLoopEntity) (VArr [VRef ''List:1''])"
      using Suc g less.prems(3)
      by (simp add: exLoopEntity_def fullEntityResult_def objectPrototypeKeys_def)
    show ?thesis
    proof (cases a)
      case 0
      with e1 show ?thesis by simp
    next
      case (Suc b)
      let ?ct = "checkType D ?c1 ty (VArr [VRef ''List:1''])"
      have e2: "traverseValue D a ?c1 sel ty (Some exLoopEntity) (VArr [VRef ''List:1'']) =
          (case traverseValue D b (pushPath (snd ?ct) (SIndex 0)) sel (arrayOfType (fst ?ct)) None
                  (VRef ''List:1'') of
             None \<Rightarrow> None
           | Some (r, c) \<Rightarrow> (case traverseElements D b (popPath c) sel (arrayOfType (fst ?ct))
                               (Suc 0) [] of
                              None \<Rightarrow> None | Some (rs, c') \<Rightarrow> Some (RArr (r # rs), c')))"
        using Suc by (simp add: case_prod_unfold split: option.splits)
      have "traverseValue D b (pushPath (snd ?ct) (SIndex 0)) sel (arrayOfType (fst ?ct)) None
                  (VRef ''List:1'') = None"
      proof (cases b)
        case 0
        then show ?thesis by simp
      next
        case (Suc c)
        let ?c3 = "pushPath (snd ?ct) (SIndex 0)"
        have inv: "cache ?c3 = exLoopCache" "optimistic ?c3 = False"
          "fullEntityResults ?c3 ''List:1'' = None"
          using less.prems by (simp_all add: pushPath_def checkType_keeps)
        have "c < n" using \<open>n = Suc a\<close> \<open>a = Suc b\<close> Suc by simp
        from less.IH[OF this inv] Suc show ?thesis by simp
      qed
      with e1 e2 show ?thesis by simp
    qed
  qed
qed

text \<open>
  C1.  The specification says that a read terminates for every store state, cyclic
  ones included.  Reading the list that holds a Reference to itself does not: for every
  depth bound the traversal reaches the bound, whatever the schema and selector helpers
  compute.  The result is memoized only when the value of the entity is an object with
  meta data, so a cycle through entities whose values are arrays is never cut.
\<close>

theorem read_self_referencing_array_never_returns:
  "executeRead D n now exLoopCache exLoopList False exLoopOptions = None"
proof -
  have "traverseEntity D n (initialContext exLoopCache False (optSelect exLoopOptions))
          ''List:1'' (Some exLoopList) (getSelectionSet D (optSelect exLoopOptions) exLoopList) = None"
    by (rule exLoop_diverges) (simp_all add: initialContext_def)
  then show ?thesis
    by (simp add: executeRead_def exLoop_resolve exLoopEntity_def del: traverseEntity.simps)
qed

text \<open>
  What the code does do for cycles: a revisit without selection set of an
  entity with a memoized result returns that result object and leaves the context as
  it is, and the two nodes that reference each other are read in finitely many steps.
\<close>

lemma traverseEntity_memoized:
  assumes "get (cache ctx) k (optimistic ctx) = Some e"
    and "fullEntityResults ctx (eid e) = Some a"
  shows "traverseEntity D (Suc n) ctx k ty None = Some (RObj a, ctx)"
  using assms by (simp add: fullEntityResult_def)

lemma exCycleCache_simps:
  "get exCycleCache k False =
     (if k = ''Node:B'' then Some exNodeB else if k = ''Node:A'' then Some exNodeA else None)"
  by (simp add: exCycleCache_def get_def)

lemma exCycle_resolve:
  "resolveEntity exCycleCache exNode (optId exCycleOptions) False = Some exNodeA"
  by (simp add: resolveEntity_def exNode_def exCycleCache_def get_def exIdentify_def
      exCycleOptions_def)

lemma exCycle_read:
  "executeRead specDeps (Suc (Suc (Suc (Suc (Suc (Suc (Suc 0))))))) 100 exCycleCache exNode False
     exCycleOptions = Some (exCycleResult, exCycleCache)"
  apply (simp add: executeRead_def exCycle_resolve)
  apply (simp add: exCycleOptions_def exCycleCache_simps exNodeA_def exNodeB_def exNode_def
      specDeps_def ctx_defs emptyResult_def exCycleResult_def)
  done

section \<open>The depth bound\<close>

text \<open>
  A larger bound does not change what a traversal returns: the bound only decides
  whether the traversal is cut off.
\<close>

lemma traverse_fuel_mono:
  "traverseEntity D n ctx k ty sel = Some x \<Longrightarrow> n \<le> m \<Longrightarrow>
     traverseEntity D m ctx k ty sel = Some x"
  "traverseValue D n ctx sel ty ent data = Some x \<Longrightarrow> n \<le> m \<Longrightarrow>
     traverseValue D m ctx sel ty ent data = Some x"
  "traverseFields D n ctx a ty data fs = Some y \<Longrightarrow> n \<le> m \<Longrightarrow>
     traverseFields D m ctx a ty data fs = Some y"
  "traverseElements D n ctx sel oft i xs = Some z \<Longrightarrow> n \<le> m \<Longrightarrow>
     traverseElements D m ctx sel oft i xs = Some z"
proof (induction D n ctx k ty sel and D n ctx sel ty ent data and D n ctx a ty data fs
    and D n ctx sel oft i xs
    arbitrary: x m and x m and y m and z m
    rule: traverseEntity_traverseValue_traverseFields_traverseElements.induct)
  case (1 D ctx entityID ty sel)
  then show ?case by simp
next
  case (2 D n ctx entityID ty sel)
  from "2.prems"(2) obtain m' where m: "m = Suc m'" "n \<le> m'" by (cases m) auto
  show ?case
  proof (cases "get (cache ctx) entityID (optimistic ctx)")
    case None
    with "2.prems" m show ?thesis by simp
  next
    case (Some e)
    show ?thesis
    proof (cases "if sel = None then fullEntityResult ctx (eid e) else None")
      case (Some a)
      with \<open>get (cache ctx) entityID (optimistic ctx) = Some e\<close> "2.prems" m show ?thesis
        by simp
    next
      case None
      with \<open>get (cache ctx) entityID (optimistic ctx) = Some e\<close> "2.prems"(1)
      have "traverseValue D n
              (checkInvalidated (checkExpiresAt ctx (Some (eexpiresAt e)) (OfEntity (eid e)))
                 (einvalidated e) (OfEntity (eid e))) sel ty (Some e) (evalue e) = Some x"
        by simp
      from "2.IH"[OF \<open>get (cache ctx) entityID (optimistic ctx) = Some e\<close> None this m(2)]
      show ?thesis
        using \<open>get (cache ctx) entityID (optimistic ctx) = Some e\<close> None m(1) by simp
    qed
  qed
next
  case (3 D ctx sel ty ent data)
  then show ?case by simp
next
  case (4 D n ctx sel ty ent data)
  from "4.prems"(2) obtain m' where m: "m = Suc m'" "n \<le> m'" by (cases m) auto
  show ?case
  proof (cases "isReference data")
    case True
    with "4.prems"(1) have "traverseEntity D n ctx (refKey data) ty sel = Some x" by simp
    from "4.IH"(1)[OF True this m(2)] True m(1) show ?thesis by simp
  next
    case False
    obtain ty' ctx1 where ct: "(ty', ctx1) = checkType D ctx ty data" by (metis surj_pair)
    show ?thesis
    proof (cases "isObjectWithMeta data")
      case True
      obtain a ctx2 where no: "(a, ctx2) = newObject ctx1" by (metis surj_pair)
      let ?c = "case ent of None \<Rightarrow> ctx2
               | Some e \<Rightarrow> if sel = None
                   then ctx2\<lparr>fullEntityResults := (fullEntityResults ctx2)(eid e \<mapsto> a)\<rparr>
                   else ctx2"
      from "4.prems"(1) False True ct[symmetric] no[symmetric] obtain c3 where
        tf: "traverseFields D n ?c a ty' data (getSelectionFields D (selector ctx2) sel ty' data)
              = Some c3" and x: "x = (RObj a, c3)"
        by (auto split: option.splits)
      from "4.IH"(2)[OF False ct True no tf m(2)]
      show ?thesis using False True ct[symmetric] no[symmetric] x m(1) by simp
    next
      case nobj: False
      show ?thesis
      proof (cases "isArray data")
        case True
        from "4.prems"(1) False nobj True ct[symmetric] obtain rs c2 where
          te: "traverseElements D n ctx1 sel (arrayOfType ty') 0 (elements data) = Some (rs, c2)"
          and x: "x = (RArr rs, c2)"
          by (auto split: option.splits)
        from "4.IH"(3)[OF False ct nobj True te m(2)]
        show ?thesis using False nobj True ct[symmetric] x m(1) by simp
      next
        case False
        with "4.prems"(1) \<open>\<not> isReference data\<close> nobj ct[symmetric] m(1) show ?thesis by simp
      qed
    qed
  qed
next
  case (5 D n ctx a ty data)
  then show ?case by simp
next
  case (6 D n ctx a ty data fieldName selectionField rest)
  let ?x = "pushPath ctx (SName fieldName)"
  let ?tf = "maybeGetfieldType D ty fieldName"
  show ?case
  proof (cases "fieldValue ?x ?tf data fieldName")
    case None
    with "6.prems"(1)
    have "traverseFields D n (popPath (addMissingField ?x)) a ty data rest = Some y"
      by (simp add: Let_def)
    from "6.IH"(1)[OF refl refl None this "6.prems"(2)] None show ?thesis
      by (simp add: Let_def)
  next
    case (Some v)
    let ?c = "checkInvalidated (checkExpiresAt ?x (fieldExpiresAt data fieldName) (OfField (path ?x)))
                (fieldInvalidated data fieldName) (OfField (path ?x))"
    let ?al = "case falias selectionField of None \<Rightarrow> fieldName | Some al \<Rightarrow> al"
    from "6.prems"(1) Some obtain rv c2 where
      tv: "traverseValue D n ?c (selectionSet selectionField) (Option.bind ?tf ftype) None v
             = Some (rv, c2)"
      and tf: "traverseFields D n (popPath (setField c2 a ?al rv)) a ty data rest = Some y"
      by (auto simp: Let_def split: option.splits)
    from "6.IH"(2)[OF refl refl Some tv "6.prems"(2)]
      "6.IH"(3)[OF refl refl Some tv refl tf "6.prems"(2)] Some
    show ?thesis by (simp add: Let_def)
  qed
next
  case (7 D n ctx sel ofType i)
  then show ?case by simp
next
  case (8 D n ctx sel ofType i x xs)
  from "8.prems"(1) obtain rv c1 rs' c2 where
    tv: "traverseValue D n (pushPath ctx (SIndex i)) sel ofType None x = Some (rv, c1)"
    and te: "traverseElements D n (popPath c1) sel ofType (Suc i) xs = Some (rs', c2)"
    and z: "z = (rv # rs', c2)"
    by (auto split: option.splits)
  from "8.IH"(1)[OF tv "8.prems"(2)] "8.IH"(2)[OF tv refl te "8.prems"(2)] z
  show ?case by simp
qed

end
